theory Spec2Isabelle
  imports Complex_Main "HOL-Library.Multiset" "HOL-Library.Product_Lexorder"
begin

section \<open>Strings\<close>

text \<open>
  A Python \<open>str\<close> is modelled as a \<open>string\<close>: a list of characters, each one code point
  below 256, so that \<open>length\<close> is Python's \<open>len\<close>. On these code points
  \<open>str.isspace\<close>, the regex class \<open>\s\<close> and the separator set of \<open>str.split()\<close> agree,
  \<open>\d\<close> is the ASCII digits, and case-insensitive matching of an ASCII letter is
  comparison after lowering.
\<close>

definition is_space :: "char \<Rightarrow> bool" where
  "is_space c = (c \<in> set [CHR 0x09, CHR 0x0A, CHR 0x0B, CHR 0x0C, CHR 0x0D,
                           CHR 0x1C, CHR 0x1D, CHR 0x1E, CHR 0x1F, CHR 0x20,
                           CHR 0x85, CHR 0xA0])"

definition is_digit :: "char \<Rightarrow> bool" where
  "is_digit c = (c \<in> set ''0123456789'')"

definition lower_char :: "char \<Rightarrow> char" where
  "lower_char c =
     (let n = (of_char c :: nat)
      in if (65 \<le> n \<and> n \<le> 90) \<or> (192 \<le> n \<and> n \<le> 222 \<and> n \<noteq> 215)
         then char_of (n + 32) else c)"

definition lower :: "string \<Rightarrow> string" where
  "lower s = map lower_char s"

text \<open>\<open>text.split()\<close>: the maximal runs of non-whitespace, in order.\<close>

fun split_acc :: "string \<Rightarrow> string \<Rightarrow> string list" where
  "split_acc cur [] = (if cur = [] then [] else [cur])"
| "split_acc cur (c # cs) =
     (if is_space c then (if cur = [] then split_acc [] cs else cur # split_acc [] cs)
      else split_acc (cur @ [c]) cs)"

definition split :: "string \<Rightarrow> string list" where
  "split s = split_acc [] s"

text \<open>\<open>sep.join(parts)\<close>.\<close>

fun join :: "string \<Rightarrow> string list \<Rightarrow> string" where
  "join sep [] = []"
| "join sep [x] = x"
| "join sep (x # y # ys) = x @ sep @ join sep (y # ys)"

text \<open>\<open>text.strip()\<close>: whitespace removed at both ends.\<close>

definition strip :: "string \<Rightarrow> string" where
  "strip s = rev (dropWhile is_space (rev (dropWhile is_space s)))"

text \<open>\<open>' '.join(text.split())\<close>, the first step of both cleaners.\<close>

definition collapse :: "string \<Rightarrow> string" where
  "collapse s = join '' '' (split s)"

section \<open>Text cleaner\<close>

text \<open>
  \<open>re.sub(r'^(Chapter|Section|Part)\s*\d*\.?\s*', '', text, flags=re.IGNORECASE)\<close>.
  The pattern is anchored at the start, so there is at most one match; every part after
  the keyword is optional and greedy and nothing follows it, so the match takes the
  keyword, all whitespace, all digits, one dot if there is one, and all whitespace.
\<close>

definition keyword_rest :: "string \<Rightarrow> string option" where
  "keyword_rest s =
     (if lower (take 7 s) = ''chapter'' then Some (drop 7 s)
      else if lower (take 7 s) = ''section'' then Some (drop 7 s)
      else if lower (take 4 s) = ''part'' then Some (drop 4 s)
      else None)"

definition drop_dot :: "string \<Rightarrow> string" where
  "drop_dot s = (case s of [] \<Rightarrow> [] | c # cs \<Rightarrow> if c = CHR ''.'' then cs else s)"

definition strip_prefix :: "string \<Rightarrow> string" where
  "strip_prefix s =
     (case keyword_rest s of
        None \<Rightarrow> s
      | Some r \<Rightarrow> dropWhile is_space (drop_dot (dropWhile is_digit (dropWhile is_space r))))"

text \<open>
  \<open>re.sub(r'\s+\d+\s*$', '', text)\<close>. A match ends at the end of the text, so there is
  at most one, and the leftmost one starts at the first character of the whitespace run
  before the final digits: read from the end, optional whitespace, at least one digit,
  at least one whitespace character.
\<close>

definition strip_page_number :: "string \<Rightarrow> string" where
  "strip_page_number s =
     (let r1 = dropWhile is_space (rev s);
          r2 = dropWhile is_digit r1;
          r3 = dropWhile is_space r2
      in if length r2 < length r1 \<and> length r3 < length r2 then rev r3 else s)"

record config =
  font_size_threshold :: rat
  min_heading_chars :: nat
  max_heading_chars :: nat

definition default_config :: config where
  "default_config = \<lparr>font_size_threshold = 2, min_heading_chars = 3, max_heading_chars = 200\<rparr>"

definition in_bounds :: "config \<Rightarrow> string \<Rightarrow> bool" where
  "in_bounds cfg s = (min_heading_chars cfg \<le> length s \<and> length s \<le> max_heading_chars cfg)"

definition clean_heading_text :: "config \<Rightarrow> string \<Rightarrow> string" where
  "clean_heading_text cfg s =
     (let t = strip_prefix (collapse s)
      in if in_bounds cfg t then strip_page_number t else [])"

text \<open>
  \<open>re.sub(r'\.(pdf|docx?)$', '', ' '.join(text.split()), flags=re.IGNORECASE)[:200]\<close>.
  The collapsed text carries no newline, so \<open>$\<close> is the end of the text, and the three
  suffixes exclude each other.
\<close>

definition strip_extension :: "string \<Rightarrow> string" where
  "strip_extension s =
     (let n = length s
      in if 5 \<le> n \<and> lower (drop (n - 5) s) = ''.docx'' then take (n - 5) s
         else if 4 \<le> n \<and> (lower (drop (n - 4) s) = ''.pdf'' \<or> lower (drop (n - 4) s) = ''.doc'')
         then take (n - 4) s
         else s)"

definition clean_title_text :: "string \<Rightarrow> string" where
  "clean_title_text s = take 200 (strip_extension (collapse s))"

section \<open>Exceptions\<close>

text \<open>
  A call that may raise returns \<open>exn + 'a\<close>, \<open>Inl\<close> the exception. \<open>try_except\<close> is
  \<open>try: return body  except Exception: return dflt\<close>.
\<close>

datatype exn = OpenError | TocError | ZeroDivisionError | IndexError | KeyError

definition try_except :: "exn + 'a \<Rightarrow> 'a \<Rightarrow> exn + 'a" where
  "try_except body dflt = (case body of Inl e \<Rightarrow> Inr dflt | Inr r \<Rightarrow> Inr r)"

section \<open>Glyphs, pages and dictionaries\<close>

text \<open>
  A glyph is the dictionary \<open>c\<close> of the page's \<open>chars\<close>; its field \<open>c_text\<close> is
  \<open>c['text']\<close>, and so on (\<open>c_fontname\<close> is \<open>c.get('fontname', '')\<close>). Positions and
  sizes are Python floats, modelled as exact rationals.
\<close>

record glyph =
  c_text :: string
  c_x0 :: rat
  c_x1 :: rat
  c_top :: rat
  c_size :: rat
  c_fontname :: string

record page =
  chars :: "glyph list"
  height :: rat
  width :: rat

text \<open>
  A Python dictionary whose iteration order matters is an association list in insertion
  order with distinct keys. \<open>dict_upd k f d\<close> is \<open>m[k] = f(m[k])\<close> on a \<open>defaultdict\<close>
  with default \<open>d\<close>; \<open>dict_set k v\<close> is \<open>m[k] = v\<close>.
\<close>

fun dict_upd :: "'k \<Rightarrow> ('v \<Rightarrow> 'v) \<Rightarrow> 'v \<Rightarrow> ('k \<times> 'v) list \<Rightarrow> ('k \<times> 'v) list" where
  "dict_upd k f d [] = [(k, f d)]"
| "dict_upd k f d ((k', v) # kvs) =
     (if k' = k then (k', f v) # kvs else (k', v) # dict_upd k f d kvs)"

definition dict_set :: "'k \<Rightarrow> 'v \<Rightarrow> ('k \<times> 'v) list \<Rightarrow> ('k \<times> 'v) list" where
  "dict_set k v kvs = dict_upd k (\<lambda>_. v) v kvs"

text \<open>\<open>max(xs, key=key)\<close> on a non-empty sequence: the first element of maximal key.\<close>

fun max_by :: "('a \<Rightarrow> 'k::linorder) \<Rightarrow> 'a \<Rightarrow> 'a list \<Rightarrow> 'a" where
  "max_by key best [] = best"
| "max_by key best (x # xs) = (if key best < key x then max_by key x xs else max_by key best xs)"

text \<open>\<open>round(x, 1)\<close>: the nearest multiple of one tenth, a tie going to the even one.\<close>

definition round_half_even :: "rat \<Rightarrow> int" where
  "round_half_even x =
     (let f = \<lfloor>x\<rfloor>; d = x - of_int f
      in if d < 1 / 2 then f else if 1 / 2 < d then f + 1 else if even f then f else f + 1)"

definition round1 :: "rat \<Rightarrow> rat" where
  "round1 x = of_int (round_half_even (x * 10)) / 10"

text \<open>\<open>str(n)\<close> for an integer, as the f-string \<open>f"H{level}"\<close> formats it.\<close>

function str_nat :: "nat \<Rightarrow> string" where
  "str_nat n = (if n < 10 then [char_of (48 + n)] else str_nat (n div 10) @ [char_of (48 + n mod 10)])"
  by pat_completeness auto
termination
  by (relation "measure id") auto

declare str_nat.simps [simp del]

definition str_int :: "int \<Rightarrow> string" where
  "str_int i = (if i < 0 then CHR ''-'' # str_nat (nat (- i)) else str_nat (nat i))"

section \<open>Line reconstructor\<close>

fun group_loop :: "glyph list list \<Rightarrow> glyph list \<Rightarrow> rat \<Rightarrow> glyph list \<Rightarrow> glyph list list" where
  "group_loop lines current current_y [] = lines @ [current]"
| "group_loop lines current current_y (c # cs) =
     (if \<bar>c_top c - current_y\<bar> < 5 then group_loop lines (current @ [c]) current_y cs
      else group_loop (lines @ [current]) [c] (c_top c) cs)"

definition group_by_line :: "glyph list \<Rightarrow> glyph list list" where
  "group_by_line cs =
     (if cs = [] then []
      else case sort_key (\<lambda>c. (c_top c, c_x0 c)) cs of
             [] \<Rightarrow> []
           | c0 # rest \<Rightarrow> group_loop [] [c0] (c_top c0) rest)"

section \<open>Font statistics aggregator\<close>

record raw_stat =
  count_s :: nat
  is_bold :: bool
  sample :: string
  positions :: "rat list"

record font_stat = raw_stat +
  frequency :: rat

definition default_stat :: raw_stat where
  "default_stat = \<lparr>count_s = 0, is_bold = False, sample = [], positions = []\<rparr>"

text \<open>\<open>sub in s\<close> for strings.\<close>

fun contains :: "string \<Rightarrow> string \<Rightarrow> bool" where
  "contains sub [] = (sub = [])"
| "contains sub (c # cs) = (take (length sub) (c # cs) = sub \<or> contains sub cs)"

definition update_stat :: "glyph \<Rightarrow> raw_stat \<Rightarrow> raw_stat" where
  "update_stat c st =
     \<lparr>count_s = count_s st + 1,
      is_bold = (is_bold st \<or> contains ''bold'' (lower (c_fontname c))),
      sample = (if length (sample st) < 50 then sample st @ c_text c else sample st),
      positions = positions st @ [c_top c]\<rparr>"

text \<open>The two nested loops over pages and glyphs, on the state \<open>(stats, total)\<close> (\<open>total_n\<close> below).\<close>

definition count_glyph :: "(rat \<times> raw_stat) list \<times> nat \<Rightarrow> glyph \<Rightarrow> (rat \<times> raw_stat) list \<times> nat" where
  "count_glyph st c =
     (dict_upd (round1 (c_size c)) (update_stat c) default_stat (fst st), snd st + 1)"

definition count_glyphs :: "page list \<Rightarrow> (rat \<times> raw_stat) list \<times> nat" where
  "count_glyphs pages = foldl (\<lambda>st p. foldl count_glyph st (chars p)) ([], 0) pages"

definition with_frequency :: "nat \<Rightarrow> raw_stat \<Rightarrow> font_stat" where
  "with_frequency total_n st =
     \<lparr>count_s = count_s st, is_bold = is_bold st, sample = sample st, positions = positions st,
      frequency = (if total_n \<noteq> 0 then of_nat (count_s st) / of_nat total_n else 0)\<rparr>"

definition analyze_font_statistics :: "page list \<Rightarrow> (rat \<times> font_stat) list" where
  "analyze_font_statistics pages =
     (let (stats, total_n) = count_glyphs pages
      in map (\<lambda>(s, st). (s, with_frequency total_n st)) stats)"

section \<open>Heading font classifier\<close>

definition classify_step ::
  "config \<Rightarrow> (rat \<times> font_stat) list \<Rightarrow> rat \<Rightarrow> (rat \<times> string) list \<times> nat \<Rightarrow> rat
     \<Rightarrow> (rat \<times> string) list \<times> nat" where
  "classify_step cfg stats body_size st sz =
     (case map_of stats sz of
        None \<Rightarrow> st
      | Some stat \<Rightarrow>
          if body_size + font_size_threshold cfg < sz
             \<and> 1 / 1000 < frequency stat \<and> frequency stat < 1 / 10 \<and> snd st \<le> 3
          then (dict_set sz (''H'' @ str_nat (snd st)) (fst st), snd st + 1)
          else st)"

text \<open>
  \<open>max(stats, key=lambda s: stats[s]['frequency'])\<close> walks the keys in insertion order;
  \<open>sorted(stats, reverse=True)\<close> is the keys in descending order.
\<close>

definition identify_heading_fonts :: "config \<Rightarrow> (rat \<times> font_stat) list \<Rightarrow> (rat \<times> string) list" where
  "identify_heading_fonts cfg stats =
     (case stats of
        [] \<Rightarrow> []
      | kv # kvs \<Rightarrow>
          let body_size = fst (max_by (\<lambda>e. frequency (snd e)) kv kvs)
          in fst (foldl (classify_step cfg stats body_size) ([], 1) (rev (sort (map fst stats)))))"

section \<open>Page heading extractor\<close>

text \<open>
  An outline entry is a Python dictionary with string keys, in insertion order; this is
  the object \<open>json.dump\<close> writes, key by key.
\<close>

datatype jval = JStr string | JInt int | JNum rat

type_synonym entry = "(string \<times> jval) list"

text \<open>\<open>Counter(sizes).most_common(1)[0][0]\<close>; on no sizes the index raises.\<close>

definition counter :: "'a list \<Rightarrow> ('a \<times> nat) list" where
  "counter xs = foldl (\<lambda>acc x. dict_upd x Suc 0 acc) [] xs"

definition most_common_first :: "'a list \<Rightarrow> exn + 'a" where
  "most_common_first xs =
     (case counter xs of [] \<Rightarrow> Inl IndexError | kv # kvs \<Rightarrow> Inr (fst (max_by snd kv kvs)))"

text \<open>\<open>min\<close> and \<open>max\<close> over the glyphs of a line; the caller has a first glyph.\<close>

definition min_of :: "rat \<Rightarrow> rat list \<Rightarrow> rat" where
  "min_of x xs = foldl min x xs"

definition max_of :: "rat \<Rightarrow> rat list \<Rightarrow> rat" where
  "max_of x xs = foldl max x xs"

definition line_text :: "glyph list \<Rightarrow> string" where
  "line_text line = strip (concat (map c_text line))"

text \<open>One round of the loop over lines: \<open>Inr None\<close> is \<open>continue\<close> or no heading.\<close>

definition heading_of_line ::
  "config \<Rightarrow> (rat \<times> string) list \<Rightarrow> int \<Rightarrow> glyph list \<Rightarrow> exn + entry option" where
  "heading_of_line cfg heading_fonts page_num line =
     (let text = line_text line
      in if \<not> in_bounds cfg text then Inr None
         else case most_common_first (map (\<lambda>c. round1 (c_size c)) line) of
                Inl e \<Rightarrow> Inl e
              | Inr primary_size \<Rightarrow>
                  (case map_of heading_fonts primary_size of
                     None \<Rightarrow> Inr None
                   | Some lvl \<Rightarrow>
                       (case line of
                          [] \<Rightarrow> Inl IndexError
                        | c # cs \<Rightarrow>
                            Inr (Some [(''level'', JStr lvl),
                                       (''text'', JStr (clean_heading_text cfg text)),
                                       (''page'', JInt page_num),
                                       (''y_position'', JNum (min_of (c_top c) (map c_top cs))),
                                       (''font_size'', JNum primary_size)]))))"

fun headings_loop ::
  "config \<Rightarrow> (rat \<times> string) list \<Rightarrow> int \<Rightarrow> entry list \<Rightarrow> glyph list list \<Rightarrow> exn + entry list" where
  "headings_loop cfg heading_fonts page_num headings [] = Inr headings"
| "headings_loop cfg heading_fonts page_num headings (line # lines) =
     (case heading_of_line cfg heading_fonts page_num line of
        Inl e \<Rightarrow> Inl e
      | Inr None \<Rightarrow> headings_loop cfg heading_fonts page_num headings lines
      | Inr (Some h) \<Rightarrow> headings_loop cfg heading_fonts page_num (headings @ [h]) lines)"

definition extract_page_headings ::
  "config \<Rightarrow> page \<Rightarrow> (rat \<times> string) list \<Rightarrow> int \<Rightarrow> exn + entry list" where
  "extract_page_headings cfg pg heading_fonts page_num =
     headings_loop cfg heading_fonts page_num [] (group_by_line (chars pg))"

section \<open>Title candidate scorer\<close>

definition line_score :: "rat \<Rightarrow> rat \<Rightarrow> glyph list \<Rightarrow> exn + rat" where
  "line_score page_h page_w line =
     (case line of
        [] \<Rightarrow> Inl ZeroDivisionError
      | c # cs \<Rightarrow>
          let sz = sum_list (map c_size line) / of_nat (length line);
              y = min_of (c_top c) (map c_top cs);
              x_center = (min_of (c_x0 c) (map c_x0 cs) + max_of (c_x1 c) (map c_x1 cs)) / 2
          in if page_h = 0 \<or> page_w / 2 = 0 then Inl ZeroDivisionError
             else Inr ((sz / 12) * (4 / 10) + ((page_h - y) / page_h) * (3 / 10)
                       + (1 - \<bar>x_center - page_w / 2\<bar> / (page_w / 2)) * (3 / 10)))"

fun candidates_loop ::
  "config \<Rightarrow> rat \<Rightarrow> rat \<Rightarrow> (string \<times> rat) list \<Rightarrow> glyph list list \<Rightarrow> exn + (string \<times> rat) list" where
  "candidates_loop cfg page_h page_w candidates [] = Inr candidates"
| "candidates_loop cfg page_h page_w candidates (line # lines) =
     (if \<not> in_bounds cfg (line_text line) then candidates_loop cfg page_h page_w candidates lines
      else case line_score page_h page_w line of
             Inl e \<Rightarrow> Inl e
           | Inr score \<Rightarrow>
               candidates_loop cfg page_h page_w (candidates @ [(line_text line, score)]) lines)"

definition title_from_page_body :: "config \<Rightarrow> page \<Rightarrow> exn + string" where
  "title_from_page_body cfg pg =
     (case candidates_loop cfg (height pg) (width pg) [] (take 10 (group_by_line (chars pg))) of
        Inl e \<Rightarrow> Inl e
      | Inr [] \<Rightarrow> Inr []
      | Inr (c # cs) \<Rightarrow> Inr (clean_title_text (fst (max_by snd c cs))))"

definition extract_title_from_page :: "config \<Rightarrow> page \<Rightarrow> exn + string" where
  "extract_title_from_page cfg pg = try_except (title_from_page_body cfg pg) []"

section \<open>The two libraries\<close>

text \<open>
  What the two PDF libraries give for the path being processed. \<open>pymupdf.open\<close> raises
  or gives a document whose \<open>get_toc()\<close> raises or gives the entries
  \<open>(level, text, page)\<close>, and whose \<open>metadata.get('title', '')\<close> is a string.
  \<open>pdfplumber.open\<close> raises or gives the pages; a failure while a page is read counts as
  a failure to open.
\<close>

record mupdf_doc =
  get_toc :: "exn + (int \<times> string \<times> int) list"
  metadata_title :: string

record env =
  pymupdf_open :: "exn + mupdf_doc"
  pdfplumber_open :: "exn + page list"

record result =
  title :: string
  outline :: "entry list"

definition empty_result :: result where
  "empty_result = \<lparr>title = [], outline = []\<rparr>"

section \<open>Embedded-outline stage\<close>

definition toc_entry :: "config \<Rightarrow> int \<times> string \<times> int \<Rightarrow> entry" where
  "toc_entry cfg e =
     (case e of (lvl, text, pg) \<Rightarrow>
        [(''level'', JStr (''H'' @ str_int lvl)),
         (''text'', JStr (clean_heading_text cfg text)),
         (''page'', JInt pg)])"

definition toc_keep :: "config \<Rightarrow> int \<times> string \<times> int \<Rightarrow> bool" where
  "toc_keep cfg e = (case e of (lvl, text, pg) \<Rightarrow> lvl \<le> 3 \<and> clean_heading_text cfg text \<noteq> [])"

definition pymupdf_outline_body :: "config \<Rightarrow> env \<Rightarrow> exn + result" where
  "pymupdf_outline_body cfg ev =
     (case pymupdf_open ev of
        Inl e \<Rightarrow> Inl e
      | Inr doc \<Rightarrow>
          (case get_toc doc of
             Inl e \<Rightarrow> Inl e
           | Inr toc \<Rightarrow>
               Inr \<lparr>title = clean_title_text (metadata_title doc),
                    outline = [toc_entry cfg e. e \<leftarrow> toc, toc_keep cfg e]\<rparr>))"

definition extract_pymupdf_outline :: "config \<Rightarrow> env \<Rightarrow> exn + result" where
  "extract_pymupdf_outline cfg ev = try_except (pymupdf_outline_body cfg ev) empty_result"

section \<open>Font-based stage\<close>

text \<open>\<open>for idx, page in enumerate(pdf.pages, 1): outline.extend(...)\<close>.\<close>

fun pages_loop ::
  "config \<Rightarrow> (rat \<times> string) list \<Rightarrow> int \<Rightarrow> entry list \<Rightarrow> page list \<Rightarrow> exn + entry list" where
  "pages_loop cfg heading_fonts idx acc [] = Inr acc"
| "pages_loop cfg heading_fonts idx acc (pg # pgs) =
     (case extract_page_headings cfg pg heading_fonts idx of
        Inl e \<Rightarrow> Inl e
      | Inr hs \<Rightarrow> pages_loop cfg heading_fonts (idx + 1) (acc @ hs) pgs)"

text \<open>
  \<open>outline.sort(key=lambda x: (x["page"], x["y_position"]))\<close>: the keys are computed
  first, a missing key raises, and the sort is stable.
\<close>

definition sort_key_of :: "entry \<Rightarrow> exn + (int \<times> rat)" where
  "sort_key_of e =
     (case (map_of e ''page'', map_of e ''y_position'') of
        (Some (JInt p), Some (JNum y)) \<Rightarrow> Inr (p, y)
      | _ \<Rightarrow> Inl KeyError)"

fun sort_keys :: "entry list \<Rightarrow> exn + (int \<times> rat) list" where
  "sort_keys [] = Inr []"
| "sort_keys (e # es) =
     (case sort_key_of e of
        Inl x \<Rightarrow> Inl x
      | Inr k \<Rightarrow> (case sort_keys es of Inl x \<Rightarrow> Inl x | Inr ks \<Rightarrow> Inr (k # ks)))"

definition sort_outline :: "entry list \<Rightarrow> exn + entry list" where
  "sort_outline es =
     (case sort_keys es of
        Inl x \<Rightarrow> Inl x
      | Inr ks \<Rightarrow> Inr (map snd (sort_key fst (zip ks es))))"

definition font_based_body :: "config \<Rightarrow> env \<Rightarrow> exn + result" where
  "font_based_body cfg ev =
     (case pdfplumber_open ev of
        Inl e \<Rightarrow> Inl e
      | Inr pages \<Rightarrow>
          let font_stats = analyze_font_statistics pages;
              heading_fonts = identify_heading_fonts cfg font_stats
          in case pages_loop cfg heading_fonts 1 [] pages of
               Inl e \<Rightarrow> Inl e
             | Inr hs \<Rightarrow>
                 (case (case pages of [] \<Rightarrow> Inr [] | p0 # _ \<Rightarrow> extract_title_from_page cfg p0) of
                    Inl e \<Rightarrow> Inl e
                  | Inr t \<Rightarrow>
                      (case sort_outline hs of
                         Inl e \<Rightarrow> Inl e
                       | Inr sorted_hs \<Rightarrow> Inr \<lparr>title = t, outline = sorted_hs\<rparr>)))"

definition extract_font_based_outline :: "config \<Rightarrow> env \<Rightarrow> exn + result" where
  "extract_font_based_outline cfg ev = try_except (font_based_body cfg ev) empty_result"

section \<open>Title resolution and the orchestrator\<close>

definition extract_title_body :: "config \<Rightarrow> env \<Rightarrow> exn + string" where
  "extract_title_body cfg ev =
     (case pymupdf_open ev of
        Inl e \<Rightarrow> Inl e
      | Inr doc \<Rightarrow>
          if metadata_title doc \<noteq> [] then Inr (clean_title_text (metadata_title doc))
          else (case pdfplumber_open ev of
                  Inl e \<Rightarrow> Inl e
                | Inr [] \<Rightarrow> Inr []
                | Inr (p0 # _) \<Rightarrow> extract_title_from_page cfg p0))"

definition extract_title :: "config \<Rightarrow> env \<Rightarrow> exn + string" where
  "extract_title cfg ev = try_except (extract_title_body cfg ev) []"

definition extract_outline_body :: "config \<Rightarrow> env \<Rightarrow> exn + result" where
  "extract_outline_body cfg ev =
     (case extract_pymupdf_outline cfg ev of
        Inl e \<Rightarrow> Inl e
      | Inr r1 \<Rightarrow>
          (case (if outline r1 = [] then extract_font_based_outline cfg ev else Inr r1) of
             Inl e \<Rightarrow> Inl e
           | Inr r2 \<Rightarrow>
               if title r2 = []
               then (case extract_title cfg ev of
                       Inl e \<Rightarrow> Inl e
                     | Inr t \<Rightarrow> Inr (r2\<lparr>title := t\<rparr>))
               else Inr r2))"

definition extract_outline :: "config \<Rightarrow> env \<Rightarrow> exn + result" where
  "extract_outline cfg ev = try_except (extract_outline_body cfg ev) empty_result"

text \<open>
  One round of the loop of \<open>process_pdfs\<close>: the object written to the document's JSON
  file, \<open>json.dump\<close> writing every key of every dictionary it is given.
\<close>

definition persisted :: "config \<Rightarrow> env \<Rightarrow> result" where
  "persisted cfg ev = (case extract_outline cfg ev of Inl e \<Rightarrow> empty_result | Inr r \<Rightarrow> r)"

section \<open>Example inputs\<close>

text \<open>A glyph five units wide, set in Arial, with its text, left edge, top and size.\<close>

definition glyph_at :: "string \<Rightarrow> rat \<Rightarrow> rat \<Rightarrow> rat \<Rightarrow> glyph" where
  "glyph_at t x y s =
     \<lparr>c_text = t, c_x0 = x, c_x1 = x + 5, c_top = y, c_size = s, c_fontname = ''Arial''\<rparr>"

definition three_glyphs :: "glyph list" where
  "three_glyphs = [glyph_at ''b'' 10 100 12, glyph_at ''c'' 0 106 12, glyph_at ''a'' 5 102 12]"

definition four_glyph_page :: page where
  "four_glyph_page =
     \<lparr>chars = [glyph_at ''b'' 10 100 12, glyph_at ''a'' 5 102 12, glyph_at ''c'' 0 106 12,
               glyph_at ''d'' 0 104 10],
      height = 800, width = 600\<rparr>"

text \<open>
  The statistics of a document with body text at size 10 and larger text at sizes 16, 14
  and 12.
\<close>

definition stat_of :: "nat \<Rightarrow> rat \<Rightarrow> font_stat" where
  "stat_of n f = \<lparr>count_s = n, is_bold = False, sample = [], positions = [], frequency = f\<rparr>"

definition example_stats :: "(rat \<times> font_stat) list" where
  "example_stats =
     [(10, stat_of 800 (8 / 10)), (16, stat_of 20 (2 / 100)), (12, stat_of 130 (13 / 100)),
      (14, stat_of 50 (5 / 100))]"

text \<open>A path that neither library can open.\<close>

definition failing_env :: env where
  "failing_env = \<lparr>pymupdf_open = Inl OpenError, pdfplumber_open = Inl OpenError\<rparr>"

text \<open>A document with an embedded table of contents.\<close>

definition toc_env :: env where
  "toc_env =
     \<lparr>pymupdf_open =
        Inr \<lparr>get_toc = Inr [(1, ''Intro'', 1), (4, ''Deep'', 2), (2, ''Chapter 2. Background 7'', 2),
                            (3, ''Part 1'', 3)],
             metadata_title = ''Report.pdf''\<rparr>,
      pdfplumber_open = Inl OpenError\<rparr>"

text \<open>A first page with a large line near the top and a smaller line below it.\<close>

definition title_page :: page where
  "title_page =
     \<lparr>chars = [glyph_at ''x'' 290 100 10, glyph_at ''y'' 295 100 10, glyph_at ''z'' 300 100 10,
               glyph_at ''A'' 290 50 20, glyph_at ''b'' 295 50 20, glyph_at ''c'' 300 50 20],
      height = 800, width = 600\<rparr>"

text \<open>
  Two one-page documents without an embedded outline and without a metadata title: a
  heading line in size 16 above a line of body text in size 10, the body line long
  enough for the heading size to stay below a tenth of all glyphs. The heading reads
  "Abc" in the first and "Part" in the second.
\<close>

definition body_line :: "nat \<Rightarrow> glyph list" where
  "body_line n = map (\<lambda>i. glyph_at ''x'' (of_nat i * 5) 50 10) [0..<n]"

definition abc_env :: env where
  "abc_env =
     \<lparr>pymupdf_open = Inr \<lparr>get_toc = Inr [], metadata_title = []\<rparr>,
      pdfplumber_open =
        Inr [\<lparr>chars = [glyph_at ''A'' 0 10 16, glyph_at ''b'' 5 10 16, glyph_at ''c'' 10 10 16]
                        @ body_line 28,
              height = 800, width = 600\<rparr>]\<rparr>"

definition part_env :: env where
  "part_env =
     \<lparr>pymupdf_open = Inr \<lparr>get_toc = Inr [], metadata_title = []\<rparr>,
      pdfplumber_open =
        Inr [\<lparr>chars = [glyph_at ''P'' 0 10 16, glyph_at ''a'' 5 10 16, glyph_at ''r'' 10 10 16,
                         glyph_at ''t'' 15 10 16]
                        @ body_line 37,
              height = 800, width = 600\<rparr>]\<rparr>"

section \<open>Invariants of the loops\<close>

text \<open>
  After the glyphs \<open>cs\<close> have been counted: the keys are distinct, the total is the number
  of glyphs, the counts add up to it, and the count of a size is the number of glyphs
  that round to it.
\<close>

definition stats_inv :: "glyph list \<Rightarrow> (rat \<times> raw_stat) list \<times> nat \<Rightarrow> bool" where
  "stats_inv cs st =
     (distinct (map fst (fst st)) \<and> snd st = length cs
      \<and> (\<Sum>e\<leftarrow>fst st. count_s (snd e)) = length cs
      \<and> (\<forall>s. (case map_of (fst st) s of None \<Rightarrow> 0 | Some r \<Rightarrow> count_s r)
                = length (filter (\<lambda>c. round1 (c_size c) = s) cs)))"

text \<open>The test of the classifier's loop on a size, apart from the level count.\<close>

definition qualifies :: "config \<Rightarrow> (rat \<times> font_stat) list \<Rightarrow> rat \<Rightarrow> rat \<Rightarrow> bool" where
  "qualifies cfg stats body sz =
     (\<exists>stat. map_of stats sz = Some stat \<and> body + font_size_threshold cfg < sz
             \<and> 1 / 1000 < frequency stat \<and> frequency stat < 1 / 10)"

text \<open>
  While the classifier's loop still has the sizes \<open>xs\<close> to visit: the next level is one
  more than the number of headings, the labels are H1, H2, ... in order, the heading
  sizes followed by \<open>xs\<close> are strictly descending, and every heading size qualifies.
\<close>

definition classify_inv ::
  "config \<Rightarrow> (rat \<times> font_stat) list \<Rightarrow> rat \<Rightarrow> rat list \<Rightarrow> (rat \<times> string) list \<times> nat \<Rightarrow> bool" where
  "classify_inv cfg stats body xs st =
     (snd st = length (fst st) + 1 \<and> length (fst st) \<le> 3
      \<and> map snd (fst st) = map (\<lambda>i. ''H'' @ str_nat i) [1..<snd st]
      \<and> sorted_wrt (>) (map fst (fst st) @ xs)
      \<and> (\<forall>k \<in> fst ` set (fst st). qualifies cfg stats body k))"

section \<open>The title score as specified\<close>

text \<open>
  The score of a line on a page in the words of the specification: 0.4 times the mean
  glyph size over 12, plus 0.3 times the share of the page height below the line's top,
  plus 0.3 times the closeness of the line's horizontal midpoint to the page's.
\<close>

definition spec_score :: "page \<Rightarrow> glyph list \<Rightarrow> rat" where
  "spec_score pg line =
     (let avg_size = sum_list (map c_size line) / of_nat (length line);
          y = Min (c_top ` set line);
          x_center = (Min (c_x0 ` set line) + Max (c_x1 ` set line)) / 2
      in 4 / 10 * (avg_size / 12)
         + 3 / 10 * ((height pg - y) / height pg)
         + 3 / 10 * (1 - \<bar>x_center - width pg / 2\<bar> / (width pg / 2)))"

text \<open>
  The words of a collapsed text: none is empty and none holds a whitespace character.
\<close>

definition words_ok :: "string list \<Rightarrow> bool" where
  "words_ok ws = (\<forall>w \<in> set ws. w \<noteq> [] \<and> (\<forall>c \<in> set w. \<not> is_space c))"

section \<open>Line reconstructor: the lines partition the glyphs\<close>

lemma concat_group_loop:
  "concat (group_loop lines current y cs) = concat lines @ current @ cs"
  by (induction cs arbitrary: lines current y) auto

lemma concat_group_by_line:
  "concat (group_by_line cs) = sort_key (\<lambda>c. (c_top c, c_x0 c)) cs"
proof (cases "sort_key (\<lambda>c. (c_top c, c_x0 c)) cs")
  case Nil
  then have "cs = []"
    by (metis length_0_conv length_sort)
  then show ?thesis by (simp add: group_by_line_def)
next
  case (Cons c0 rest)
  then have "cs \<noteq> []" by auto
  with Cons show ?thesis
    by (simp add: group_by_line_def concat_group_loop)
qed

lemma group_loop_nonempty:
  "[] \<notin> set lines \<Longrightarrow> current \<noteq> [] \<Longrightarrow> [] \<notin> set (group_loop lines current y cs)"
  by (induction cs arbitrary: lines current y) auto

lemma group_by_line_nonempty: "[] \<notin> set (group_by_line cs)"
  by (auto simp: group_by_line_def group_loop_nonempty split: list.splits)

text \<open>
  C7. The lines of \<open>group_by_line\<close> hold every input glyph exactly as often as the
  input does (nothing dropped, nothing duplicated), no line is empty, distinct input
  glyphs give lines that are pairwise disjoint, and no glyphs give no lines.
\<close>

theorem group_by_line_partition:
  "group_by_line [] = []
   \<and> mset (concat (group_by_line cs)) = mset cs
   \<and> [] \<notin> set (group_by_line cs)
   \<and> (distinct cs \<longrightarrow>
        (\<forall>i j. i < j \<and> j < length (group_by_line cs)
           \<longrightarrow> set (group_by_line cs ! i) \<inter> set (group_by_line cs ! j) = {}))"
proof -
  let ?ls = "group_by_line cs"
  have m: "mset (concat ?ls) = mset cs"
    by (simp add: concat_group_by_line)
  have ne: "[] \<notin> set ?ls" by (rule group_by_line_nonempty)
  have disj: "set (?ls ! i) \<inter> set (?ls ! j) = {}"
    if d: "distinct cs" and ij: "i < j" "j < length ?ls" for i j
  proof -
    from d m have dc: "distinct (concat ?ls)"
      by (metis mset_eq_imp_distinct_iff)
    from ne have "removeAll [] ?ls = ?ls" by simp
    with dc have dl: "distinct ?ls" by (simp add: distinct_concat_iff)
    with ij have "?ls ! i \<noteq> ?ls ! j"
      by (simp add: nth_eq_iff_index_eq)
    moreover have "?ls ! i \<in> set ?ls" "?ls ! j \<in> set ?ls" using ij by auto
    ultimately show ?thesis using dc by (simp add: distinct_concat_iff)
  qed
  show ?thesis using m ne disj by (simp add: group_by_line_def)
qed

theorem group_by_line_partition_witness:
  "distinct three_glyphs
   \<and> (0::nat) < 1 \<and> 1 < length (group_by_line three_glyphs)
   \<and> mset (concat (group_by_line three_glyphs)) = mset three_glyphs
   \<and> set (group_by_line three_glyphs ! 0) \<inter> set (group_by_line three_glyphs ! 1) = {}"
proof -
  have d: "distinct three_glyphs"
    by (simp add: three_glyphs_def glyph_at_def)
  have l: "1 < length (group_by_line three_glyphs)"
    by code_simp
  from group_by_line_partition [of three_glyphs] d l show ?thesis
    by blast
qed

section \<open>Font statistics: frequencies\<close>

lemma keys_dict_upd:
  "map fst (dict_upd k f d kvs) = (if k \<in> fst ` set kvs then map fst kvs else map fst kvs @ [k])"
  by (induction kvs) (force simp: image_iff)+

lemma distinct_dict_upd:
  "distinct (map fst kvs) \<Longrightarrow> distinct (map fst (dict_upd k f d kvs))"
  by (simp add: keys_dict_upd)

lemma map_of_dict_upd:
  "map_of (dict_upd k f d kvs) k' =
     (if k' = k then Some (f (case map_of kvs k of None \<Rightarrow> d | Some v \<Rightarrow> v)) else map_of kvs k')"
  by (induction kvs) auto

lemma sum_counts_dict_upd:
  "(\<Sum>e\<leftarrow>dict_upd k (update_stat c) default_stat kvs. count_s (snd e))
     = (\<Sum>e\<leftarrow>kvs. count_s (snd e)) + 1"
  by (induction kvs) (auto simp: update_stat_def default_stat_def)

lemma stats_inv_step:
  assumes "stats_inv cs st"
  shows "stats_inv (cs @ [c]) (count_glyph st c)"
proof -
  let ?k = "round1 (c_size c)"
  let ?st' = "dict_upd ?k (update_stat c) default_stat (fst st)"
  from assms have d: "distinct (map fst (fst st))" and n: "snd st = length cs"
    and sm: "(\<Sum>e\<leftarrow>fst st. count_s (snd e)) = length cs"
    and ct: "\<And>s. (case map_of (fst st) s of None \<Rightarrow> 0 | Some r \<Rightarrow> count_s r)
                = length (filter (\<lambda>c. round1 (c_size c) = s) cs)"
    by (simp_all add: stats_inv_def)
  have 1: "distinct (map fst ?st')" using d by (rule distinct_dict_upd)
  have 2: "(\<Sum>e\<leftarrow>?st'. count_s (snd e)) = length (cs @ [c])"
    by (simp add: sum_counts_dict_upd sm)
  have 3: "(case map_of ?st' s of None \<Rightarrow> 0 | Some r \<Rightarrow> count_s r)
                = length (filter (\<lambda>c. round1 (c_size c) = s) (cs @ [c]))" for s
    using ct [of s]
    by (auto simp: map_of_dict_upd update_stat_def default_stat_def split: option.splits)
  show ?thesis
    unfolding stats_inv_def count_glyph_def using 1 2 3 n by simp
qed

lemma stats_inv_foldl:
  "stats_inv cs st \<Longrightarrow> stats_inv (cs @ ds) (foldl count_glyph st ds)"
proof (induction ds arbitrary: cs st)
  case Nil
  then show ?case by simp
next
  case (Cons d ds)
  from Cons.IH [OF stats_inv_step [OF Cons.prems, of d]] show ?case by simp
qed

lemma foldl_pages:
  "foldl (\<lambda>st p. foldl f st (g p)) a ps = foldl f a (concat (map g ps))"
  by (induction ps arbitrary: a) auto

lemma count_glyphs_inv: "stats_inv (concat (map chars pages)) (count_glyphs pages)"
proof -
  have "stats_inv [] ([], 0)" by (simp add: stats_inv_def)
  from stats_inv_foldl [OF this, of "concat (map chars pages)"] show ?thesis
    by (simp add: count_glyphs_def foldl_pages)
qed

lemma sum_list_divide:
  "(\<Sum>x\<leftarrow>xs. (f x :: rat) / c) = (\<Sum>x\<leftarrow>xs. f x) / c"
  by (induction xs) (auto simp: add_divide_distrib)

text \<open>
  C8. In the statistics of a document every size has the number of glyphs that round to
  it as its count and count / total as its frequency, the total being the number of
  glyphs; the frequencies add up to 1 when there is a glyph, and every frequency is 0
  when there is none. Frequencies are exact rationals here, so the sum is exactly 1.
\<close>

theorem font_statistics_frequencies:
  fixes pages :: "page list"
  defines "glyphs \<equiv> concat (map chars pages)"
  defines "stats \<equiv> analyze_font_statistics pages"
  shows "distinct (map fst stats)
    \<and> (\<forall>(s, st) \<in> set stats.
          count_s st = length (filter (\<lambda>c. round1 (c_size c) = s) glyphs)
          \<and> frequency st = (if length glyphs \<noteq> 0 then of_nat (count_s st) / of_nat (length glyphs) else 0))
    \<and> (0 < length glyphs \<longrightarrow> (\<Sum>e\<leftarrow>stats. frequency (snd e)) = 1)
    \<and> (length glyphs = 0 \<longrightarrow> (\<forall>(s, st) \<in> set stats. frequency st = 0))"
proof -
  obtain raw n where rn: "count_glyphs pages = (raw, n)" by (cases "count_glyphs pages")
  with count_glyphs_inv [of pages]
  have d: "distinct (map fst raw)" and n: "n = length glyphs"
    and sm: "(\<Sum>e\<leftarrow>raw. count_s (snd e)) = length glyphs"
    and ct: "\<And>s. (case map_of raw s of None \<Rightarrow> 0 | Some r \<Rightarrow> count_s r)
                = length (filter (\<lambda>c. round1 (c_size c) = s) glyphs)"
    by (simp_all add: stats_inv_def glyphs_def)
  have st: "stats = map (\<lambda>(s, r). (s, with_frequency n r)) raw"
    by (simp add: stats_def analyze_font_statistics_def rn)
  have keys: "map fst stats = map fst raw"
    by (simp add: st case_prod_unfold comp_def)
  have 1: "distinct (map fst stats)" using d keys by simp
  have 2: "count_s st' = length (filter (\<lambda>c. round1 (c_size c) = s) glyphs)
          \<and> frequency st' = (if length glyphs \<noteq> 0 then of_nat (count_s st') / of_nat (length glyphs) else 0)"
    if "(s, st') \<in> set stats" for s st'
  proof -
    from that obtain r where r: "(s, r) \<in> set raw" and e: "st' = with_frequency n r"
      by (auto simp: st)
    from r d have "map_of raw s = Some r" by simp
    with ct [of s] have "count_s r = length (filter (\<lambda>c. round1 (c_size c) = s) glyphs)" by simp
    then show ?thesis by (simp add: e with_frequency_def n)
  qed
  have 3: "(\<Sum>e\<leftarrow>stats. frequency (snd e)) = 1" if pos: "0 < length glyphs"
  proof -
    have "(\<Sum>e\<leftarrow>stats. frequency (snd e))
            = (\<Sum>e\<leftarrow>raw. (of_nat (count_s (snd e)) :: rat) / of_nat n)"
      using pos by (simp add: st comp_def case_prod_unfold with_frequency_def n)
    also have "\<dots> = (\<Sum>e\<leftarrow>raw. (of_nat (count_s (snd e)) :: rat)) / of_nat n"
      by (rule sum_list_divide)
    also have "(\<Sum>e\<leftarrow>raw. (of_nat (count_s (snd e)) :: rat)) = of_nat (\<Sum>e\<leftarrow>raw. count_s (snd e))"
      by (induction raw) auto
    finally show ?thesis using pos by (simp add: sm n)
  qed
  have 4: "frequency st' = 0" if "length glyphs = 0" "(s, st') \<in> set stats" for s st'
    using 2 [OF that(2)] that(1) by simp
  show ?thesis using 1 2 3 4 by blast
qed

theorem font_statistics_frequencies_witness:
  "0 < length (concat (map chars [four_glyph_page]))
   \<and> map (\<lambda>e. (fst e, count_s (snd e), frequency (snd e))) (analyze_font_statistics [four_glyph_page])
       = [(12, 3, 3 / 4), (10, 1, 1 / 4)]
   \<and> (\<Sum>e\<leftarrow>analyze_font_statistics [four_glyph_page]. frequency (snd e)) = 1
   \<and> length (concat (map chars ([] :: page list))) = 0
   \<and> analyze_font_statistics [] = []"
proof -
  have p: "0 < length (concat (map chars [four_glyph_page]))"
    by (simp add: four_glyph_page_def)
  have v: "map (\<lambda>e. (fst e, count_s (snd e), frequency (snd e))) (analyze_font_statistics [four_glyph_page])
       = [(12, 3, 3 / 4), (10, 1, 1 / 4)]"
    by code_simp
  have e: "analyze_font_statistics [] = []"
    by (simp add: analyze_font_statistics_def count_glyphs_def)
  from font_statistics_frequencies [of "[four_glyph_page]"] p
  have "(\<Sum>e\<leftarrow>analyze_font_statistics [four_glyph_page]. frequency (snd e)) = 1"
    by blast
  with p v e show ?thesis by simp
qed

section \<open>Heading font classifier: levels\<close>

lemma max_by_mem: "max_by key b xs \<in> set (b # xs)"
  by (induction xs arbitrary: b) auto

lemma max_by_ge_first: "key b \<le> key (max_by key b xs)"
proof (induction xs arbitrary: b)
  case Nil
  then show ?case by simp
next
  case (Cons y ys)
  show ?case
  proof (cases "key b < key y")
    case True
    with Cons.IH [of y] show ?thesis by simp
  next
    case False
    with Cons.IH [of b] show ?thesis by simp
  qed
qed

lemma max_by_ge: "x \<in> set (b # xs) \<Longrightarrow> key x \<le> key (max_by key b xs)"
proof (induction xs arbitrary: b)
  case Nil
  then show ?case by simp
next
  case (Cons y ys)
  show ?case
  proof (cases "key b < key y")
    case True
    from Cons.prems consider "x = b" | "x \<in> set (y # ys)" by auto
    then show ?thesis
    proof cases
      case 1
      with True max_by_ge_first [of key y ys] show ?thesis by simp
    next
      case 2
      with True Cons.IH [of y] show ?thesis by simp
    qed
  next
    case False
    from Cons.prems consider "x = y" | "x \<in> set (b # ys)" by auto
    then show ?thesis
    proof cases
      case 1
      with False max_by_ge_first [of key b ys] show ?thesis by simp
    next
      case 2
      with False Cons.IH [of b] show ?thesis by simp
    qed
  qed
qed

lemma dict_upd_fresh: "k \<notin> fst ` set kvs \<Longrightarrow> dict_upd k f d kvs = kvs @ [(k, f d)]"
  by (induction kvs) auto

lemma dict_set_fresh: "k \<notin> fst ` set kvs \<Longrightarrow> dict_set k v kvs = kvs @ [(k, v)]"
  by (simp add: dict_set_def dict_upd_fresh)

lemma classify_inv_step:
  assumes "classify_inv cfg stats body (x # xs) st"
  shows "classify_inv cfg stats body xs (classify_step cfg stats body st x)"
proof -
  obtain hs lvl where st: "st = (hs, lvl)" by (cases st)
  from assms have lvl: "lvl = length hs + 1" and len: "length hs \<le> 3"
    and lab: "map snd hs = map (\<lambda>i. ''H'' @ str_nat i) [1..<lvl]"
    and srt: "sorted_wrt (>) (map fst hs @ x # xs)"
    and q: "\<forall>k \<in> fst ` set hs. qualifies cfg stats body k"
    by (simp_all add: classify_inv_def st)
  from srt have fresh: "x \<notin> fst ` set hs"
    by (auto simp: sorted_wrt_append)
  from srt have srt': "sorted_wrt (>) (map fst hs @ xs)"
    by (auto simp: sorted_wrt_append)
  show ?thesis
  proof (cases "classify_step cfg stats body st x = st")
    case True
    then show ?thesis using lvl len lab srt' q by (simp add: classify_inv_def st)
  next
    case False
    then obtain stat where stat: "map_of stats x = Some stat"
      and c: "body + font_size_threshold cfg < x" "1 / 1000 < frequency stat"
             "frequency stat < 1 / 10" "lvl \<le> 3"
      by (auto simp: classify_step_def st split: option.splits if_splits)
    then have step: "classify_step cfg stats body st x = (hs @ [(x, ''H'' @ str_nat lvl)], lvl + 1)"
      by (simp add: classify_step_def st dict_set_fresh [OF fresh])
    have qx: "qualifies cfg stats body x" using stat c by (simp add: qualifies_def)
    from srt have srt2: "sorted_wrt (>) (map fst (hs @ [(x, ''H'' @ str_nat lvl)]) @ xs)"
      by simp
    show ?thesis
      unfolding step classify_inv_def
      using lvl c(4) lab srt2 q qx by auto
  qed
qed

lemma classify_inv_foldl:
  "classify_inv cfg stats body xs st
   \<Longrightarrow> classify_inv cfg stats body [] (foldl (classify_step cfg stats body) st xs)"
proof (induction xs arbitrary: st)
  case Nil
  then show ?case by simp
next
  case (Cons x xs)
  from Cons.IH [OF classify_inv_step [OF Cons.prems]] show ?case by simp
qed

lemma sorted_desc: "distinct xs \<Longrightarrow> sorted_wrt (>) (rev (sort xs))"
  by (simp add: sorted_wrt_rev strict_sorted_iff)

lemma str_nat_123: "str_nat 1 = ''1''" "str_nat 2 = ''2''" "str_nat 3 = ''3''"
  by code_simp+

lemma labels_upto:
  "n \<le> 3 \<Longrightarrow> map (\<lambda>i. ''H'' @ str_nat i) [1..<n + 1] = take n [''H1'', ''H2'', ''H3'']"
proof -
  assume "n \<le> 3"
  then consider "n = 0" | "n = 1" | "n = 2" | "n = 3" by linarith
  then show ?thesis
  proof cases
    case 1
    then show ?thesis by simp
  next
    case 2
    have "map (\<lambda>i. ''H'' @ str_nat i) [1..<1 + 1] = take 1 [''H1'', ''H2'', ''H3'']"
      by code_simp
    with 2 show ?thesis by simp
  next
    case 3
    have "map (\<lambda>i. ''H'' @ str_nat i) [1..<2 + 1] = take 2 [''H1'', ''H2'', ''H3'']"
      by code_simp
    with 3 show ?thesis by simp
  next
    case 4
    have "map (\<lambda>i. ''H'' @ str_nat i) [1..<3 + 1] = take 3 [''H1'', ''H2'', ''H3'']"
      by code_simp
    with 4 show ?thesis by simp
  qed
qed

text \<open>
  C6. For statistics with distinct sizes the classifier gives at most 3 heading sizes,
  labelled H1, H2, H3 in this order, in strictly descending size; there is a size of
  maximal frequency (the body size) such that every heading size exceeds it by more than
  2 and has a frequency strictly between 0.001 and 0.1.
\<close>

theorem identify_heading_fonts_levels:
  assumes "distinct (map fst stats)"
  defines "hf \<equiv> identify_heading_fonts default_config stats"
  shows "length hf \<le> 3
    \<and> map snd hf = take (length hf) [''H1'', ''H2'', ''H3'']
    \<and> sorted_wrt (>) (map fst hf)
    \<and> (stats = [] \<longrightarrow> hf = [])
    \<and> (stats \<noteq> [] \<longrightarrow>
         (\<exists>(body_size, body) \<in> set stats.
            (\<forall>(s, st) \<in> set stats. frequency st \<le> frequency body)
            \<and> (\<forall>(sz, lvl) \<in> set hf.
                  \<exists>stat. (sz, stat) \<in> set stats \<and> body_size + 2 < sz
                         \<and> 1 / 1000 < frequency stat \<and> frequency stat < 1 / 10)))"
proof (cases stats)
  case Nil
  then show ?thesis by (simp add: hf_def identify_heading_fonts_def)
next
  case (Cons kv kvs)
  let ?b = "max_by (\<lambda>e. frequency (snd e)) kv kvs"
  let ?keys = "rev (sort (map fst stats))"
  have hf: "hf = fst (foldl (classify_step default_config stats (fst ?b)) ([], 1) ?keys)"
    by (simp add: hf_def identify_heading_fonts_def Cons)
  have "classify_inv default_config stats (fst ?b) ?keys ([], 1)"
    using sorted_desc [OF assms(1)] by (simp add: classify_inv_def)
  from classify_inv_foldl [OF this]
  have len: "length hf \<le> 3"
    and lab: "map snd hf = map (\<lambda>i. ''H'' @ str_nat i) [1..<length hf + 1]"
    and srt: "sorted_wrt (>) (map fst hf)"
    and q: "\<forall>k \<in> fst ` set hf. qualifies default_config stats (fst ?b) k"
    by (simp_all add: classify_inv_def hf)
  have bmem: "?b \<in> set stats" using max_by_mem [of "\<lambda>e. frequency (snd e)" kv kvs] Cons by simp
  have bmax: "frequency (snd e) \<le> frequency (snd ?b)" if "e \<in> set stats" for e
    using max_by_ge [of e kv kvs "\<lambda>e. frequency (snd e)"] that Cons by simp
  have ent: "\<exists>stat. (sz, stat) \<in> set stats \<and> fst ?b + 2 < sz
                         \<and> 1 / 1000 < frequency stat \<and> frequency stat < 1 / 10"
    if "(sz, lvl) \<in> set hf" for sz lvl
  proof -
    from that q have "qualifies default_config stats (fst ?b) sz" by force
    then show ?thesis
      by (auto simp: qualifies_def default_config_def dest: map_of_SomeD)
  qed
  have body: "\<exists>(body_size, body) \<in> set stats.
            (\<forall>(s, st) \<in> set stats. frequency st \<le> frequency body)
            \<and> (\<forall>(sz, lvl) \<in> set hf.
                  \<exists>stat. (sz, stat) \<in> set stats \<and> body_size + 2 < sz
                         \<and> 1 / 1000 < frequency stat \<and> frequency stat < 1 / 10)"
    using bmem bmax ent by (intro bexI [of _ ?b]) (auto simp: case_prod_unfold)
  from lab labels_upto [OF len]
  have lab': "map snd hf = take (length hf) [''H1'', ''H2'', ''H3'']" by (rule trans)
  have ne: "stats \<noteq> []" using Cons by simp
  show ?thesis using len lab' srt body ne by blast
qed

theorem identify_heading_fonts_levels_witness:
  "distinct (map fst example_stats) \<and> example_stats \<noteq> []
   \<and> identify_heading_fonts default_config example_stats = [(16, ''H1''), (14, ''H2'')]
   \<and> length (identify_heading_fonts default_config example_stats) \<le> 3
   \<and> sorted_wrt (>) (map fst (identify_heading_fonts default_config example_stats))"
proof -
  have d: "distinct (map fst example_stats)"
    by (simp add: example_stats_def)
  have n: "example_stats \<noteq> []"
    by (simp add: example_stats_def)
  have v: "identify_heading_fonts default_config example_stats = [(16, ''H1''), (14, ''H2'')]"
    by code_simp
  from identify_heading_fonts_levels [OF d] d n v show ?thesis
    by blast
qed

section \<open>Embedded-outline stage and orchestrator\<close>

lemma try_except_returns: "\<exists>r. try_except body dflt = Inr r"
  by (cases body) (simp_all add: try_except_def)

lemma try_except_caught: "body = Inl e \<Longrightarrow> try_except body dflt = Inr dflt"
  by (simp add: try_except_def)

lemma comprehension_map_filter:
  "concat (map (\<lambda>x. if p x then [f x] else []) xs) = map f (filter p xs)"
  by (induction xs) auto

text \<open>
  C10. When the document opens and its table of contents is read, the embedded-outline
  stage returns, in the order of the table, one entry for each table entry whose level
  is at most 3 and whose cleaned text is not empty, and no other: its level is "H"
  followed by the level, its text the cleaned text, its page the page.
\<close>

theorem embedded_outline_entries:
  assumes "pymupdf_open ev = Inr doc" and "get_toc doc = Inr toc"
  shows "\<exists>r. extract_pymupdf_outline cfg ev = Inr r
           \<and> outline r =
               map (\<lambda>(lvl, text, pg).
                      [(''level'', JStr (''H'' @ str_int lvl)),
                       (''text'', JStr (clean_heading_text cfg text)),
                       (''page'', JInt pg)])
                   (filter (\<lambda>(lvl, text, pg). lvl \<le> 3 \<and> clean_heading_text cfg text \<noteq> []) toc)"
proof -
  have f: "toc_entry cfg = (\<lambda>(lvl, text, pg).
                      [(''level'', JStr (''H'' @ str_int lvl)),
                       (''text'', JStr (clean_heading_text cfg text)),
                       (''page'', JInt pg)])"
    by (simp add: toc_entry_def fun_eq_iff)
  have p: "toc_keep cfg = (\<lambda>(lvl, text, pg). lvl \<le> 3 \<and> clean_heading_text cfg text \<noteq> [])"
    by (simp add: toc_keep_def fun_eq_iff)
  have "pymupdf_outline_body cfg ev =
          Inr \<lparr>title = clean_title_text (metadata_title doc),
               outline = map (toc_entry cfg) (filter (toc_keep cfg) toc)\<rparr>"
    using assms by (simp add: pymupdf_outline_body_def comprehension_map_filter)
  then show ?thesis
    by (simp add: extract_pymupdf_outline_def try_except_def f p)
qed

theorem embedded_outline_entries_witness:
  "pymupdf_open toc_env = Inr \<lparr>get_toc = Inr [(1, ''Intro'', 1), (4, ''Deep'', 2), (2, ''Chapter 2. Background 7'', 2),
                            (3, ''Part 1'', 3)],
             metadata_title = ''Report.pdf''\<rparr>
   \<and> extract_pymupdf_outline default_config toc_env =
       Inr \<lparr>title = ''Report'',
            outline = [[(''level'', JStr ''H1''), (''text'', JStr ''Intro''), (''page'', JInt 1)],
                       [(''level'', JStr ''H2''), (''text'', JStr ''Background''), (''page'', JInt 2)]]\<rparr>"
proof -
  let ?toc = "[(1, ''Intro'', 1), (4, ''Deep'', 2), (2, ''Chapter 2. Background 7'', 2), (3, ''Part 1'', 3)]
                :: (int \<times> string \<times> int) list"
  let ?doc = "\<lparr>get_toc = Inr ?toc, metadata_title = ''Report.pdf''\<rparr>"
  have o: "pymupdf_open toc_env = Inr ?doc" by (simp add: toc_env_def)
  have t: "get_toc ?doc = Inr ?toc" by simp
  have v: "extract_pymupdf_outline default_config toc_env =
       Inr \<lparr>title = ''Report'',
            outline = [[(''level'', JStr ''H1''), (''text'', JStr ''Intro''), (''page'', JInt 1)],
                       [(''level'', JStr ''H2''), (''text'', JStr ''Background''), (''page'', JInt 2)]]\<rparr>"
    by code_simp
  from embedded_outline_entries [OF o t, of default_config] o v show ?thesis by blast
qed

text \<open>
  C5. The orchestrator returns a result for every path, and so do the embedded-outline
  stage, the font-based stage and title resolution: an exception inside one of them
  makes it return its empty value. When neither library can open the path the result is
  the empty one, title "" and outline [].
\<close>

theorem extract_outline_never_raises:
  "(\<exists>r. extract_outline cfg ev = Inr r)
   \<and> (\<exists>r. extract_outline_body cfg ev = Inr r)
   \<and> (\<exists>r. extract_pymupdf_outline cfg ev = Inr r)
   \<and> (\<exists>r. extract_font_based_outline cfg ev = Inr r)
   \<and> (\<exists>t. extract_title cfg ev = Inr t)
   \<and> (\<forall>e. pymupdf_outline_body cfg ev = Inl e \<longrightarrow> extract_pymupdf_outline cfg ev = Inr empty_result)
   \<and> (\<forall>e. font_based_body cfg ev = Inl e \<longrightarrow> extract_font_based_outline cfg ev = Inr empty_result)
   \<and> (\<forall>e. extract_title_body cfg ev = Inl e \<longrightarrow> extract_title cfg ev = Inr [])
   \<and> (\<forall>e1 e2. pymupdf_open ev = Inl e1 \<and> pdfplumber_open ev = Inl e2
         \<longrightarrow> extract_outline cfg ev = Inr \<lparr>title = [], outline = []\<rparr>)"
proof -
  have worst: "extract_outline cfg ev = Inr \<lparr>title = [], outline = []\<rparr>"
    if "pymupdf_open ev = Inl e1" "pdfplumber_open ev = Inl e2" for e1 e2
  proof -
    have 1: "extract_pymupdf_outline cfg ev = Inr empty_result"
      using that by (simp add: extract_pymupdf_outline_def pymupdf_outline_body_def try_except_def)
    have 2: "extract_font_based_outline cfg ev = Inr empty_result"
      using that by (simp add: extract_font_based_outline_def font_based_body_def try_except_def)
    have 3: "extract_title cfg ev = Inr []"
      using that by (simp add: extract_title_def extract_title_body_def try_except_def)
    show ?thesis
      by (simp add: extract_outline_def extract_outline_body_def 1 2 3 try_except_def empty_result_def)
  qed
  obtain r1 where r1: "extract_pymupdf_outline cfg ev = Inr r1"
    using try_except_returns [of "pymupdf_outline_body cfg ev" empty_result]
    by (auto simp: extract_pymupdf_outline_def)
  obtain r2 where r2: "extract_font_based_outline cfg ev = Inr r2"
    using try_except_returns [of "font_based_body cfg ev" empty_result]
    by (auto simp: extract_font_based_outline_def)
  obtain t where t: "extract_title cfg ev = Inr t"
    using try_except_returns [of "extract_title_body cfg ev" "[]"]
    by (auto simp: extract_title_def)
  have body: "\<exists>r. extract_outline_body cfg ev = Inr r"
    by (simp add: extract_outline_body_def r1 r2 t)
  show ?thesis
    using worst body r1 r2 t
    by (auto simp: extract_outline_def extract_pymupdf_outline_def extract_font_based_outline_def
          extract_title_def try_except_returns try_except_caught)
qed

theorem extract_outline_never_raises_witness:
  "pymupdf_open failing_env = Inl OpenError \<and> pdfplumber_open failing_env = Inl OpenError
   \<and> pymupdf_outline_body default_config failing_env = Inl OpenError
   \<and> font_based_body default_config failing_env = Inl OpenError
   \<and> extract_title_body default_config failing_env = Inl OpenError
   \<and> extract_outline default_config failing_env = Inr \<lparr>title = [], outline = []\<rparr>"
proof -
  have o: "pymupdf_open failing_env = Inl OpenError" "pdfplumber_open failing_env = Inl OpenError"
    by (simp_all add: failing_env_def)
  have b: "pymupdf_outline_body default_config failing_env = Inl OpenError"
    "font_based_body default_config failing_env = Inl OpenError"
    "extract_title_body default_config failing_env = Inl OpenError"
    by (simp_all add: pymupdf_outline_body_def font_based_body_def extract_title_body_def o)
  from extract_outline_never_raises [of default_config failing_env] o b show ?thesis
    by blast
qed

section \<open>Title candidate scorer\<close>

lemma min_of_Min: "min_of x xs = Min (set (x # xs))"
proof -
  have "(\<lambda>a s. min s a) = (min :: rat \<Rightarrow> rat \<Rightarrow> rat)"
    by (simp add: fun_eq_iff min.commute)
  then have "min_of x xs = fold min xs x"
    by (simp add: min_of_def foldl_conv_fold)
  also have "\<dots> = Min (set (x # xs))"
    by (rule Min.set_eq_fold [symmetric])
  finally show ?thesis .
qed

lemma max_of_Max: "max_of x xs = Max (set (x # xs))"
proof -
  have "(\<lambda>a s. max s a) = (max :: rat \<Rightarrow> rat \<Rightarrow> rat)"
    by (simp add: fun_eq_iff max.commute)
  then have "max_of x xs = fold max xs x"
    by (simp add: max_of_def foldl_conv_fold)
  also have "\<dots> = Max (set (x # xs))"
    by (rule Max.set_eq_fold [symmetric])
  finally show ?thesis .
qed

lemma line_score_spec:
  assumes "line \<noteq> []" "height pg \<noteq> 0" "width pg \<noteq> 0"
  shows "line_score (height pg) (width pg) line = Inr (spec_score pg line)"
proof -
  from assms(1) obtain c cs where l: "line = c # cs" by (cases line) auto
  have m: "min_of (c_top c) (map c_top cs) = Min (c_top ` set line)"
    "min_of (c_x0 c) (map c_x0 cs) = Min (c_x0 ` set line)"
    "max_of (c_x1 c) (map c_x1 cs) = Max (c_x1 ` set line)"
    by (simp_all add: min_of_Min max_of_Max l)
  show ?thesis
    using assms(2,3) m
    by (simp add: line_score_def l spec_score_def Let_def mult.commute)
qed

lemma line_score_zero:
  "h = 0 \<or> w = 0 \<Longrightarrow> line_score h w line = Inl ZeroDivisionError"
  by (auto simp: line_score_def Let_def split: list.splits)

lemma candidates_loop_ok:
  assumes "[] \<notin> set lines" "height pg \<noteq> 0" "width pg \<noteq> 0"
  shows "candidates_loop cfg (height pg) (width pg) acc lines
           = Inr (acc @ map (\<lambda>l. (line_text l, spec_score pg l))
                            (filter (\<lambda>l. in_bounds cfg (line_text l)) lines))"
  using assms(1)
proof (induction lines arbitrary: acc)
  case Nil
  then show ?case by simp
next
  case (Cons l ls)
  then have "l \<noteq> []" "[] \<notin> set ls" by auto
  with Cons.IH assms(2,3) show ?case
    by (simp add: line_score_spec)
qed

lemma candidates_loop_zero:
  assumes "h = 0 \<or> w = 0" "\<exists>l \<in> set lines. in_bounds cfg (line_text l)"
  shows "candidates_loop cfg h w acc lines = Inl ZeroDivisionError"
  using assms(2)
proof (induction lines arbitrary: acc)
  case Nil
  then show ?case by simp
next
  case (Cons l ls)
  then show ?case
    using line_score_zero [OF assms(1), of l]
    by (cases "in_bounds cfg (line_text l)") auto
qed

lemma candidates_loop_none:
  "filter (\<lambda>l. in_bounds cfg (line_text l)) lines = []
   \<Longrightarrow> candidates_loop cfg h w acc lines = Inr acc"
  by (induction lines arbitrary: acc) (auto split: if_splits)

text \<open>
  C9. The title scorer never raises. Its candidates are the lines among the first 10
  reconstructed lines of the page whose text passes the length bounds. With no candidate
  the title is empty; on a page of non-zero height and width the title is the cleaned
  text of a candidate whose score, as specified, is maximal among the candidates; on a
  page of zero height or width the division fails and the title is empty.
\<close>

theorem title_scorer_result:
  fixes cfg :: config and pg :: page
  defines "cands \<equiv> filter (\<lambda>l. in_bounds cfg (line_text l)) (take 10 (group_by_line (chars pg)))"
  shows "(\<exists>t. extract_title_from_page cfg pg = Inr t)
    \<and> (cands = [] \<longrightarrow> extract_title_from_page cfg pg = Inr [])
    \<and> (cands \<noteq> [] \<and> height pg \<noteq> 0 \<and> width pg \<noteq> 0 \<longrightarrow>
         (\<exists>l \<in> set cands.
            extract_title_from_page cfg pg = Inr (clean_title_text (line_text l))
            \<and> (\<forall>l' \<in> set cands. spec_score pg l' \<le> spec_score pg l)))
    \<and> (cands \<noteq> [] \<and> (height pg = 0 \<or> width pg = 0) \<longrightarrow>
         extract_title_from_page cfg pg = Inr [])"
proof -
  let ?lines = "take 10 (group_by_line (chars pg))"
  let ?loop = "candidates_loop cfg (height pg) (width pg) [] ?lines"
  have ne: "[] \<notin> set ?lines"
    using group_by_line_nonempty [of "chars pg"] by (auto dest: in_set_takeD)
  have 1: "\<exists>t. extract_title_from_page cfg pg = Inr t"
    by (cases "title_from_page_body cfg pg") (simp_all add: extract_title_from_page_def try_except_def)
  have 2: "extract_title_from_page cfg pg = Inr []" if "cands = []"
  proof -
    from that have "?loop = Inr []"
      unfolding cands_def by (rule candidates_loop_none)
    then show ?thesis
      by (simp add: extract_title_from_page_def try_except_def title_from_page_body_def)
  qed
  have 3: "\<exists>l \<in> set cands.
            extract_title_from_page cfg pg = Inr (clean_title_text (line_text l))
            \<and> (\<forall>l' \<in> set cands. spec_score pg l' \<le> spec_score pg l)"
    if c: "cands \<noteq> []" and hw: "height pg \<noteq> 0" "width pg \<noteq> 0"
  proof -
    let ?f = "\<lambda>l. (line_text l, spec_score pg l)"
    from c obtain l0 ls where cs: "cands = l0 # ls" by (cases cands) auto
    have loop: "?loop = Inr (?f l0 # map ?f ls)"
      using candidates_loop_ok [OF ne hw, of cfg "[]"] cs by (simp add: cands_def)
    let ?m = "max_by snd (?f l0) (map ?f ls)"
    have res: "extract_title_from_page cfg pg = Inr (clean_title_text (fst ?m))"
      by (simp add: extract_title_from_page_def try_except_def title_from_page_body_def loop)
    have "?m \<in> set (map ?f cands)"
      using max_by_mem [of snd "?f l0" "map ?f ls"] by (simp add: cs)
    then obtain l where l: "l \<in> set cands" and m: "?m = ?f l" by auto
    have "spec_score pg l' \<le> spec_score pg l" if "l' \<in> set cands" for l'
    proof -
      from that have "?f l' \<in> set (?f l0 # map ?f ls)" by (auto simp: cs)
      from max_by_ge [OF this, of snd] show ?thesis by (simp add: m)
    qed
    with l res m show ?thesis by auto
  qed
  have 4: "extract_title_from_page cfg pg = Inr []"
    if c: "cands \<noteq> []" and z: "height pg = 0 \<or> width pg = 0"
  proof -
    from c have "\<exists>l \<in> set ?lines. in_bounds cfg (line_text l)"
      by (auto simp: cands_def filter_empty_conv)
    from candidates_loop_zero [OF z this] have "?loop = Inl ZeroDivisionError" .
    then show ?thesis
      by (simp add: extract_title_from_page_def try_except_def title_from_page_body_def)
  qed
  show ?thesis using 1 2 3 4 by blast
qed

theorem title_scorer_result_witness:
  "filter (\<lambda>l. in_bounds default_config (line_text l)) (take 10 (group_by_line (chars title_page))) \<noteq> []
   \<and> height title_page \<noteq> 0 \<and> width title_page \<noteq> 0
   \<and> extract_title_from_page default_config title_page = Inr ''Abc''
   \<and> extract_title_from_page default_config (title_page\<lparr>height := 0\<rparr>) = Inr []"
proof -
  have c: "filter (\<lambda>l. in_bounds default_config (line_text l))
             (take 10 (group_by_line (chars title_page))) \<noteq> []"
    by code_simp
  have hw: "height title_page \<noteq> 0" "width title_page \<noteq> 0"
    by (simp_all add: title_page_def)
  have v: "extract_title_from_page default_config title_page = Inr ''Abc''"
    by code_simp
  have z: "height (title_page\<lparr>height := 0\<rparr>) = 0"
    "chars (title_page\<lparr>height := 0\<rparr>) = chars title_page"
    by simp_all
  from title_scorer_result [of default_config "title_page\<lparr>height := 0\<rparr>"] c z
  have "extract_title_from_page default_config (title_page\<lparr>height := 0\<rparr>) = Inr []"
    by simp
  with c hw v show ?thesis by simp
qed

section \<open>Text cleaner: collapsed form and fixed points\<close>

lemma is_space_blank: "is_space CHR '' ''"
  by (simp add: is_space_def)

lemma words_ok_split_acc:
  "\<forall>c \<in> set cur. \<not> is_space c \<Longrightarrow> words_ok (split_acc cur s)"
proof (induction s arbitrary: cur)
  case Nil
  then show ?case by (simp add: words_ok_def)
next
  case (Cons a s)
  have e: "words_ok (split_acc [] s)" by (rule Cons.IH) simp
  show ?case
  proof (cases "is_space a")
    case True
    with e Cons.prems show ?thesis by (simp add: words_ok_def)
  next
    case False
    with Cons.prems have "\<forall>c \<in> set (cur @ [a]). \<not> is_space c" by simp
    from Cons.IH [OF this] False show ?thesis by simp
  qed
qed

lemma words_ok_split: "words_ok (split s)"
  by (simp add: split_def words_ok_split_acc)

lemma split_acc_word:
  "\<forall>c \<in> set w. \<not> is_space c \<Longrightarrow> split_acc cur (w @ rest) = split_acc (cur @ w) rest"
  by (induction w arbitrary: cur) auto

lemma split_acc_join:
  "words_ok ws \<Longrightarrow> split_acc [] (join '' '' ws) = ws"
proof (induction "'' ''" ws rule: join.induct)
  case 1
  then show ?case by simp
next
  case (2 x)
  then have "\<forall>c \<in> set x. \<not> is_space c" "x \<noteq> []" by (auto simp: words_ok_def)
  with split_acc_word [of x "[]" "[]"] show ?case by simp
next
  case (3 x y ys)
  then have x: "\<forall>c \<in> set x. \<not> is_space c" "x \<noteq> []" and r: "words_ok (y # ys)"
    by (auto simp: words_ok_def)
  have "split_acc [] (x @ '' '' @ join '' '' (y # ys)) = split_acc x ('' '' @ join '' '' (y # ys))"
    using split_acc_word [OF x(1), of "[]"] by simp
  also have "\<dots> = x # split_acc [] (join '' '' (y # ys))"
    using x(2) by (simp add: is_space_blank)
  finally show ?case using 3(1) [OF r] by simp
qed

lemma collapse_join: "words_ok ws \<Longrightarrow> collapse (join '' '' ws) = join '' '' ws"
  by (simp add: collapse_def split_def split_acc_join)

lemma collapse_idem: "collapse (collapse s) = collapse s"
  using collapse_join [OF words_ok_split [of s]] by (simp add: collapse_def)

lemma normal_words: "collapse t = t \<Longrightarrow> \<exists>ws. words_ok ws \<and> t = join '' '' ws"
  using words_ok_split [of t] by (auto simp: collapse_def)

lemma drop_join_suffix:
  "words_ok ws \<Longrightarrow> \<exists>ws'. words_ok ws' \<and> dropWhile is_space (drop k (join '' '' ws)) = join '' '' ws'"
proof (induction "'' ''" ws arbitrary: k rule: join.induct)
  case 1
  show ?case by (rule exI [of _ "[]"]) (simp add: words_ok_def)
next
  case (2 x)
  show ?case
  proof (cases "k < length x")
    case True
    then have ne: "drop k x \<noteq> []" by simp
    have ns: "\<forall>c \<in> set (drop k x). \<not> is_space c"
      using 2 by (auto simp: words_ok_def dest: in_set_dropD)
    then have "dropWhile is_space (drop k x) = drop k x"
      using ne by (cases "drop k x") auto
    with ne ns show ?thesis
      by (intro exI [of _ "[drop k x]"]) (simp add: words_ok_def)
  next
    case False
    then show ?thesis by (intro exI [of _ "[]"]) (simp add: words_ok_def)
  qed
next
  case (3 x y ys)
  then have x: "\<forall>c \<in> set x. \<not> is_space c" "x \<noteq> []" and r: "words_ok (y # ys)"
    by (auto simp: words_ok_def)
  let ?rest = "join '' '' (y # ys)"
  consider "k < length x" | "k = length x" | "length x < k" by linarith
  then show ?case
  proof cases
    case 1
    then have ne: "drop k x \<noteq> []" by simp
    have ns: "\<forall>c \<in> set (drop k x). \<not> is_space c"
      using x(1) by (auto dest: in_set_dropD)
    have "dropWhile is_space (drop k x @ '' '' @ ?rest) = drop k x @ '' '' @ ?rest"
      using ne ns by (cases "drop k x") auto
    moreover have "words_ok (drop k x # y # ys)"
      using ne ns r by (simp add: words_ok_def)
    ultimately show ?thesis using 1
      by (intro exI [of _ "drop k x # y # ys"]) simp
  next
    case 2
    from 3(1) [OF r, of 0] obtain ws' where "words_ok ws'"
      "dropWhile is_space ?rest = join '' '' ws'" by auto
    with 2 show ?thesis
      by (intro exI [of _ ws']) (simp add: is_space_blank)
  next
    case 3
    from "3.hyps" [OF r, of "k - length x - 1"] obtain ws' where "words_ok ws'"
      "dropWhile is_space (drop (k - length x - 1) ?rest) = join '' '' ws'" by auto
    moreover have "drop k (x @ '' '' @ ?rest) = drop (k - length x - 1) ?rest"
      using 3 by (simp add: drop_Cons')
    ultimately show ?thesis
      by (intro exI [of _ ws']) simp
  qed
qed

lemma join_snoc:
  "join sep (ws @ [w]) = (if ws = [] then w else join sep ws @ sep @ w)"
  by (induction sep ws rule: join.induct) auto

lemma rev_join: "rev (join '' '' ws) = join '' '' (rev (map rev ws))"
proof (induction "'' ''" ws rule: join.induct)
  case 1
  show ?case by simp
next
  case (2 x)
  show ?case by simp
next
  case (3 x y ys)
  have "rev (join '' '' (x # y # ys)) = rev (join '' '' (y # ys)) @ '' '' @ rev x"
    by simp
  also have "\<dots> = join '' '' (rev (map rev (y # ys))) @ '' '' @ rev x"
    by (simp only: 3)
  also have "\<dots> = join '' '' (rev (map rev (y # ys)) @ [rev x])"
    using join_snoc [of "'' ''" "rev (map rev (y # ys))" "rev x"] by simp
  finally show ?case by simp
qed

lemma words_ok_rev: "words_ok ws \<Longrightarrow> words_ok (rev (map rev ws))"
  by (auto simp: words_ok_def)

lemma normal_suffix:
  assumes "collapse t = t"
  shows "collapse (dropWhile is_space (drop k t)) = dropWhile is_space (drop k t)"
proof -
  from normal_words [OF assms] obtain ws where ws: "words_ok ws" "t = join '' '' ws" by auto
  from drop_join_suffix [OF ws(1), of k] obtain ws' where
    "words_ok ws'" "dropWhile is_space (drop k t) = join '' '' ws'" by (auto simp: ws(2))
  then show ?thesis by (simp add: collapse_join)
qed

lemma normal_prefix:
  assumes "collapse t = t"
  shows "collapse (rev (dropWhile is_space (drop k (rev t)))) = rev (dropWhile is_space (drop k (rev t)))"
proof -
  from normal_words [OF assms] obtain ws where ws: "words_ok ws" "t = join '' '' ws" by auto
  have "rev t = join '' '' (rev (map rev ws))" by (simp add: ws(2) rev_join)
  with drop_join_suffix [OF words_ok_rev [OF ws(1)], of k] obtain ws' where
    w': "words_ok ws'" "dropWhile is_space (drop k (rev t)) = join '' '' ws'" by auto
  have "rev (dropWhile is_space (drop k (rev t))) = join '' '' (rev (map rev ws'))"
    by (simp add: w'(2) rev_join)
  with words_ok_rev [OF w'(1)] show ?thesis by (simp add: collapse_join)
qed

lemma drop_dot_drop: "\<exists>k. drop_dot xs = drop k xs"
proof (cases xs)
  case Nil
  then show ?thesis by (simp add: drop_dot_def)
next
  case (Cons c cs)
  show ?thesis
  proof (cases "c = CHR ''.''")
    case True
    with Cons have "drop_dot xs = drop 1 xs" by (simp add: drop_dot_def)
    then show ?thesis by blast
  next
    case False
    with Cons have "drop_dot xs = drop 0 xs" by (simp add: drop_dot_def)
    then show ?thesis by blast
  qed
qed

lemma dropWhile_drop: "\<exists>k. dropWhile P (drop n t) = drop k t"
  by (metis dropWhile_eq_drop drop_drop)

lemma strip_prefix_normal:
  assumes "collapse t = t"
  shows "collapse (strip_prefix t) = strip_prefix t"
proof (cases "keyword_rest t")
  case None
  with assms show ?thesis by (simp add: strip_prefix_def)
next
  case (Some r)
  then obtain n where r: "r = drop n t"
    by (auto simp: keyword_rest_def split: if_splits)
  obtain k1 where k1: "dropWhile is_space r = drop k1 t"
    unfolding r using dropWhile_drop by blast
  obtain k2 where k2: "dropWhile is_digit (drop k1 t) = drop k2 t"
    using dropWhile_drop by blast
  obtain j where j: "drop_dot (drop k2 t) = drop j (drop k2 t)"
    using drop_dot_drop by blast
  have "strip_prefix t = dropWhile is_space (drop (j + k2) t)"
    by (simp add: strip_prefix_def Some k1 k2 j)
  with normal_suffix [OF assms, of "j + k2"] show ?thesis by simp
qed

lemma strip_page_number_normal:
  assumes "collapse t = t"
  shows "collapse (strip_page_number t) = strip_page_number t"
proof -
  obtain k1 where k1: "dropWhile is_space (rev t) = drop k1 (rev t)"
    using dropWhile_drop [of is_space 0 "rev t"] by auto
  obtain k2 where k2: "dropWhile is_digit (drop k1 (rev t)) = drop k2 (rev t)"
    using dropWhile_drop by blast
  have "collapse (rev (dropWhile is_space (drop k2 (rev t)))) = rev (dropWhile is_space (drop k2 (rev t)))"
    by (rule normal_prefix [OF assms])
  with assms show ?thesis
    by (simp add: strip_page_number_def Let_def k1 k2)
qed

lemma clean_heading_text_normal:
  "collapse (clean_heading_text cfg s) = clean_heading_text cfg s"
proof -
  have "collapse (strip_prefix (collapse s)) = strip_prefix (collapse s)"
    by (rule strip_prefix_normal) (rule collapse_idem)
  from strip_page_number_normal [OF this] show ?thesis
    by (simp add: clean_heading_text_def Let_def collapse_def split_def)
qed

lemma clean_heading_text_empty: "clean_heading_text cfg [] = []"
  by (simp add: clean_heading_text_def Let_def collapse_def split_def strip_prefix_def
        keyword_rest_def lower_def strip_page_number_def)

text \<open>
  C4, as amended. Cleaning the cleaned text returns it unchanged whenever the cleaned
  text is empty, or lies within the length bounds, does not start with an ordinal
  prefix and does not end in a page number; and cleaning "Chapter 3. Overview 12"
  gives "Overview".
\<close>

theorem clean_heading_text_fixed_point:
  "(clean_heading_text cfg s = []
      \<or> (in_bounds cfg (clean_heading_text cfg s)
         \<and> strip_prefix (clean_heading_text cfg s) = clean_heading_text cfg s
         \<and> strip_page_number (clean_heading_text cfg s) = clean_heading_text cfg s)
    \<longrightarrow> clean_heading_text cfg (clean_heading_text cfg s) = clean_heading_text cfg s)
   \<and> clean_heading_text default_config ''Chapter 3. Overview 12'' = ''Overview''"
proof -
  let ?t = "clean_heading_text cfg s"
  have 1: "clean_heading_text cfg ?t = ?t" if "?t = []"
    using that by (simp add: clean_heading_text_empty)
  have 2: "clean_heading_text cfg ?t = ?t"
    if "in_bounds cfg ?t" "strip_prefix ?t = ?t" "strip_page_number ?t = ?t"
  proof -
    have "clean_heading_text cfg ?t
            = (let u = strip_prefix (collapse ?t) in if in_bounds cfg u then strip_page_number u else [])"
      by (simp only: clean_heading_text_def [of cfg ?t])
    also have "\<dots> = ?t"
      using that by (simp add: clean_heading_text_normal Let_def)
    finally show ?thesis .
  qed
  have 3: "clean_heading_text default_config ''Chapter 3. Overview 12'' = ''Overview''"
    by code_simp
  show ?thesis using 1 2 3 by blast
qed

theorem clean_heading_text_fixed_point_witness:
  "in_bounds default_config (clean_heading_text default_config ''Chapter 3. Overview 12'')
   \<and> strip_prefix (clean_heading_text default_config ''Chapter 3. Overview 12'')
       = clean_heading_text default_config ''Chapter 3. Overview 12''
   \<and> strip_page_number (clean_heading_text default_config ''Chapter 3. Overview 12'')
       = clean_heading_text default_config ''Chapter 3. Overview 12''
   \<and> clean_heading_text default_config (clean_heading_text default_config ''Chapter 3. Overview 12'')
       = ''Overview''"
proof -
  have v: "clean_heading_text default_config ''Chapter 3. Overview 12'' = ''Overview''"
    by code_simp
  have h: "in_bounds default_config ''Overview''" "strip_prefix ''Overview'' = ''Overview''"
    "strip_page_number ''Overview'' = ''Overview''"
    by code_simp+
  from clean_heading_text_fixed_point [of default_config "''Chapter 3. Overview 12''"] h
  show ?thesis unfolding v by simp
qed

text \<open>
  C4 as stated fails: cleaning "Chapter Chapter One" gives "Chapter One", and cleaning
  that gives "One".
\<close>

theorem clean_heading_text_not_idempotent:
  "clean_heading_text default_config (clean_heading_text default_config ''Chapter Chapter One'')
     \<noteq> clean_heading_text default_config ''Chapter Chapter One''"
  by code_simp

text \<open>
  C3 at the input "ab 12": the length is tested before the page number is removed, so
  the cleaner returns "ab", two characters, below the lower bound 3, and not "".
\<close>

theorem clean_heading_text_short_result:
  "clean_heading_text default_config ''ab 12'' = ''ab''
   \<and> length ''ab'' = 2 \<and> \<not> in_bounds default_config ''ab''"
  by code_simp

section \<open>Font-based stage: the entries written\<close>

lemma abc_env_embedded:
  "extract_pymupdf_outline default_config abc_env = Inr \<lparr>title = [], outline = []\<rparr>"
  by code_simp

lemma abc_env_outline:
  "outline (persisted default_config abc_env)
     = [[(''level'', JStr ''H1''), (''text'', JStr ''Abc''), (''page'', JInt 1),
         (''y_position'', JNum 10), (''font_size'', JNum 16)]]"
  by code_simp

text \<open>
  C1 at a document without an embedded outline: the outline comes from the font-based
  stage, and the entry written for the heading has the fields y_position and font_size
  besides level, text and page; the embedded-outline stage writes entries with level,
  text and page only.
\<close>

theorem font_based_entry_has_position_and_size:
  "extract_pymupdf_outline default_config abc_env = Inr \<lparr>title = [], outline = []\<rparr>
   \<and> map (map fst) (outline (persisted default_config abc_env))
       = [[''level'', ''text'', ''page'', ''y_position'', ''font_size'']]
   \<and> map (map fst) (outline (persisted default_config toc_env))
       = [[''level'', ''text'', ''page''], [''level'', ''text'', ''page'']]"
proof -
  have "map (map fst) (outline (persisted default_config toc_env))
       = [[''level'', ''text'', ''page''], [''level'', ''text'', ''page'']]"
    by code_simp
  then show ?thesis by (simp add: abc_env_embedded abc_env_outline)
qed

text \<open>
  C2 at a page whose heading line reads "Part": the line passes the length test on its
  raw text, its cleaned text is empty, and the font-based stage writes the heading with
  the empty text; the embedded-outline stage drops a table entry with the same text.
\<close>

theorem font_based_emits_empty_text:
  "outline (persisted default_config part_env)
     = [[(''level'', JStr ''H1''), (''text'', JStr []), (''page'', JInt 1),
         (''y_position'', JNum 10), (''font_size'', JNum 16)]]
   \<and> clean_heading_text default_config ''Part'' = []
   \<and> \<not> toc_keep default_config (1, ''Part'', 1)"
  by code_simp

end
